theory Spec2Isabelle
  imports Complex_Main "HOL-Library.AList"
begin

section \<open>Data model of \<open>utils/urlShortener.ts\<close>\<close>

text \<open>
  Time stamps are kept as milliseconds since the epoch (\<open>Date.getTime()\<close>). The source
  stores them as \<open>toISOString()\<close> strings and reads them back with \<open>new Date(...)\<close>;
  the two conversions are inverse to each other on valid dates, so the model keeps the
  number. Every \<open>new Date()\<close> reads the clock again; the environment of a call holds
  one value for each read.
\<close>

record ClickData =
  timestamp :: int
  source :: string
  location :: string
  userAgent :: string
  ipHash :: "string option"

text \<open>
  The field \<open>id\<close> of the interface is named \<open>urlId\<close> here (\<open>id\<close> is the identity
  function of HOL). \<open>validityMinutes\<close> is an \<open>int\<close>: \<open>createShortenedUrl\<close> stores only
  values that passed \<open>Number.isInteger\<close>.
\<close>

record ShortenedUrl =
  urlId :: string
  originalUrl :: string
  shortCode :: string
  customShortCode :: "string option"
  createdAt :: int
  expiresAt :: int
  validityMinutes :: int
  clicks :: "ClickData list"
  isExpired :: bool

text \<open>A JavaScript \<open>number\<close>: a finite value, \<open>NaN\<close> or an infinity.\<close>

datatype number = Num real | NaN | PosInfinity | NegInfinity

text \<open>\<open>CreateUrlRequest\<close>; an optional property that is absent is \<open>None\<close>.\<close>

record CreateUrlRequest =
  reqOriginalUrl :: string
  reqValidityMinutes :: "number option"
  reqCustomShortCode :: "string option"

text \<open>
  The \<open>error\<close> strings returned by the service, one constructor per message:
  \<^item> \<open>InvalidUrl\<close>: "Invalid URL format. Please provide a valid HTTP or HTTPS URL."
  \<^item> \<open>InvalidValidity\<close>: "Validity must be a positive integer representing minutes."
  \<^item> \<open>InvalidShortCode\<close>: "Invalid shortcode. Must be 3-20 alphanumeric characters."
  \<^item> \<open>DuplicateShortCode\<close>: "Shortcode already exists. Please choose a different one."
  \<^item> \<open>UnexpectedError\<close>: the message of the \<open>catch\<close> block of \<open>createShortenedUrl\<close>
  \<^item> \<open>NotFound\<close>: "Short URL not found."
  \<^item> \<open>Expired\<close>: "Short URL has expired."
\<close>

datatype error =
  InvalidUrl | InvalidValidity | InvalidShortCode | DuplicateShortCode
  | UnexpectedError | NotFound | Expired

text \<open>
  What \<open>JSON.stringify\<close> writes, as a tree. \<open>JIso t\<close> is the JSON string holding the
  ISO-8601 rendering of the time value \<open>t\<close>. \<open>JSON.parse\<close> of the written text gives
  the same tree back.
\<close>

datatype json =
  JNull | JBool bool | JNum int | JStr string | JIso int
  | JArr "json list" | JObj "(string \<times> json) list"

text \<open>
  The service object: the \<open>urls\<close> map (a JavaScript \<open>Map\<close> keeps its entries in
  insertion order, so it is an association list) and the value held by \<open>localStorage\<close>
  under \<open>STORAGE_KEY\<close>.
\<close>

record service =
  urls :: "(string \<times> ShortenedUrl) list"
  storage :: "json option"

text \<open>
  What one call reads from its environment.
  \<^item> \<open>envNow\<close>: the clock at the \<open>new Date()\<close> of the operation itself (the \<open>now\<close>
    of \<open>createShortenedUrl\<close>, \<open>getShortenedUrl\<close> and \<open>cleanupExpiredUrls\<close>).
  \<^item> \<open>envClickTime\<close>: the clock at the \<open>new Date()\<close> of the click's time stamp.
  \<^item> \<open>envSaveTime\<close>: the clock at the \<open>new Date()\<close> inside \<open>saveToStorage\<close>.
  \<^item> \<open>envStoreAccepts\<close>: whether \<open>localStorage.setItem\<close> returns; it throws
    otherwise (a full or disabled store). No operation saves more than once.
  \<^item> \<open>envProtocol\<close>: the platform's URL parser, \<open>new URL(url).protocol\<close>; \<open>None\<close>
    when the constructor throws.
  \<^item> \<open>envRandomIndex\<close>: the successive values of
    \<open>Math.floor(Math.random() * chars.length)\<close> in the code generator. The expression
    is computed in double precision; the model takes its integer value as it is.
  \<^item> \<open>envFreshId\<close>, \<open>envIpHash\<close>: the strings made by the two
    \<open>Math.random().toString(36)\<close> templates.
  \<^item> \<open>envTimeZone\<close>: the time zone reported by \<open>Intl\<close>; \<open>None\<close> when that throws.
  \<^item> \<open>envUserAgent\<close>: \<open>navigator.userAgent\<close>.
\<close>

record env =
  envNow :: int
  envClickTime :: int
  envSaveTime :: int
  envStoreAccepts :: bool
  envProtocol :: "string \<Rightarrow> string option"
  envRandomIndex :: "nat \<Rightarrow> nat"
  envFreshId :: string
  envTimeZone :: "string option"
  envUserAgent :: string
  envIpHash :: string

definition DEFAULT_VALIDITY_MINUTES :: number where
  "DEFAULT_VALIDITY_MINUTES = Num 30"

definition SHORTCODE_LENGTH :: nat where
  "SHORTCODE_LENGTH = 6"

section \<open>Persistent store\<close>

definition clickJson :: "ClickData \<Rightarrow> json" where
  "clickJson c = JObj
     ([(''timestamp'', JIso (timestamp c)),
       (''source'', JStr (source c)),
       (''location'', JStr (location c)),
       (''userAgent'', JStr (userAgent c))]
      @ (case ipHash c of None \<Rightarrow> [] | Some h \<Rightarrow> [(''ipHash'', JStr h)]))"

text \<open>A property whose value is \<open>undefined\<close> is left out by \<open>JSON.stringify\<close>.\<close>

definition urlJson :: "ShortenedUrl \<Rightarrow> json" where
  "urlJson u = JObj
     ([(''id'', JStr (urlId u)),
       (''originalUrl'', JStr (originalUrl u)),
       (''shortCode'', JStr (shortCode u))]
      @ (case customShortCode u of None \<Rightarrow> [] | Some c \<Rightarrow> [(''customShortCode'', JStr c)])
      @ [(''createdAt'', JIso (createdAt u)),
         (''expiresAt'', JIso (expiresAt u)),
         (''validityMinutes'', JNum (validityMinutes u)),
         (''clicks'', JArr (map clickJson (clicks u))),
         (''isExpired'', JBool (isExpired u))])"

definition entryJson :: "string \<times> ShortenedUrl \<Rightarrow> json" where
  "entryJson kv = JArr [JStr (fst kv), urlJson (snd kv)]"

text \<open>The object \<open>data\<close> that \<open>saveToStorage\<close> builds from the map:
  \<open>{ urls: Array.from(this.urls.entries()), lastUpdated: new Date().toISOString() }\<close>.\<close>

definition storageData :: "env \<Rightarrow> (string \<times> ShortenedUrl) list \<Rightarrow> json" where
  "storageData e m =
     JObj [(''urls'', JArr (map entryJson m)), (''lastUpdated'', JIso (envSaveTime e))]"

text \<open>
  \<open>saveToStorage\<close>: \<open>setItem\<close> puts \<open>data\<close> under the storage key. When \<open>setItem\<close>
  throws, the \<open>catch\<close> block logs the error and the store keeps what it held.
\<close>

definition saveToStorage :: "env \<Rightarrow> service \<Rightarrow> service" where
  "saveToStorage e s =
     (if envStoreAccepts e then s\<lparr>storage := Some (storageData e (urls s))\<rparr> else s)"

text \<open>Reading the typed fields of a parsed object back.\<close>

definition getStr :: "(string \<times> json) list \<Rightarrow> string \<Rightarrow> string option" where
  "getStr ps k = (case map_of ps k of Some (JStr x) \<Rightarrow> Some x | _ \<Rightarrow> None)"

definition getIso :: "(string \<times> json) list \<Rightarrow> string \<Rightarrow> int option" where
  "getIso ps k = (case map_of ps k of Some (JIso x) \<Rightarrow> Some x | _ \<Rightarrow> None)"

definition getNum :: "(string \<times> json) list \<Rightarrow> string \<Rightarrow> int option" where
  "getNum ps k = (case map_of ps k of Some (JNum x) \<Rightarrow> Some x | _ \<Rightarrow> None)"

definition getBool :: "(string \<times> json) list \<Rightarrow> string \<Rightarrow> bool option" where
  "getBool ps k = (case map_of ps k of Some (JBool x) \<Rightarrow> Some x | _ \<Rightarrow> None)"

definition getArr :: "(string \<times> json) list \<Rightarrow> string \<Rightarrow> json list option" where
  "getArr ps k = (case map_of ps k of Some (JArr x) \<Rightarrow> Some x | _ \<Rightarrow> None)"

text \<open>An optional string property: absent reads as \<open>undefined\<close>.\<close>

definition getOptStr :: "(string \<times> json) list \<Rightarrow> string \<Rightarrow> string option option" where
  "getOptStr ps k =
     (case map_of ps k of None \<Rightarrow> Some None | Some (JStr x) \<Rightarrow> Some (Some x) | _ \<Rightarrow> None)"

fun sequence :: "'a option list \<Rightarrow> 'a list option" where
  "sequence [] = Some []"
| "sequence (x # xs) =
     (case x of None \<Rightarrow> None
      | Some y \<Rightarrow> (case sequence xs of None \<Rightarrow> None | Some ys \<Rightarrow> Some (y # ys)))"

definition clickOfJson :: "json \<Rightarrow> ClickData option" where
  "clickOfJson j =
     (case j of
        JObj ps \<Rightarrow>
          (case (getIso ps ''timestamp'', getStr ps ''source'', getStr ps ''location'',
                 getStr ps ''userAgent'', getOptStr ps ''ipHash'') of
             (Some t, Some so, Some lo, Some ua, Some ih) \<Rightarrow>
               Some \<lparr>timestamp = t, source = so, location = lo, userAgent = ua, ipHash = ih\<rparr>
           | _ \<Rightarrow> None)
      | _ \<Rightarrow> None)"

definition urlOfJson :: "json \<Rightarrow> ShortenedUrl option" where
  "urlOfJson j =
     (case j of
        JObj ps \<Rightarrow>
          (case (getStr ps ''id'', getStr ps ''originalUrl'', getStr ps ''shortCode'',
                 getOptStr ps ''customShortCode'', getIso ps ''createdAt'',
                 getIso ps ''expiresAt'', getNum ps ''validityMinutes'',
                 Option.bind (getArr ps ''clicks'') (\<lambda>cs. sequence (map clickOfJson cs)),
                 getBool ps ''isExpired'') of
             (Some i, Some ou, Some sc, Some cu, Some ca, Some ea, Some vm, Some cl, Some ie) \<Rightarrow>
               Some \<lparr>urlId = i, originalUrl = ou, shortCode = sc, customShortCode = cu,
                     createdAt = ca, expiresAt = ea, validityMinutes = vm, clicks = cl,
                     isExpired = ie\<rparr>
           | _ \<Rightarrow> None)
      | _ \<Rightarrow> None)"

text \<open>
  \<open>new Map\<close> reads an entry as \<open>entry[0]\<close> and \<open>entry[1]\<close>: the first two elements
  of an array, the properties \<open>0\<close> and \<open>1\<close> of any other object.
\<close>

definition entryParts :: "json \<Rightarrow> json option \<times> json option" where
  "entryParts j =
     (case j of
        JArr xs \<Rightarrow>
          (if 0 < length xs then Some (xs ! 0) else None,
           if 1 < length xs then Some (xs ! 1) else None)
      | JObj ps \<Rightarrow> (map_of ps ''0'', map_of ps ''1'')
      | _ \<Rightarrow> (None, None))"

definition entryOfJson :: "json \<Rightarrow> (string \<times> ShortenedUrl) option" where
  "entryOfJson j =
     (case entryParts j of
        (Some (JStr k), Some v) \<Rightarrow> map_option (\<lambda>u. (k, u)) (urlOfJson v)
      | _ \<Rightarrow> None)"

text \<open>
  \<open>new Map(entries)\<close>: the entries are set one after the other, so a key that occurs
  twice keeps its first position and its last value.
\<close>

definition newMap :: "('k \<times> 'v) list \<Rightarrow> ('k \<times> 'v) list" where
  "newMap entries = foldl (\<lambda>m kv. AList.update (fst kv) (snd kv) m) [] entries"

text \<open>The falsy values among parsed JSON values, for \<open>data.urls || []\<close>.\<close>

definition falsyJson :: "json \<Rightarrow> bool" where
  "falsyJson j = (j = JNull \<or> j = JBool False \<or> j = JNum 0 \<or> j = JStr [])"

text \<open>An element that \<open>new Map\<close> accepts as an entry is an object (here: an array
  or an object); on any other element the constructor throws a \<open>TypeError\<close>.\<close>

definition isObjectJson :: "json \<Rightarrow> bool" where
  "isObjectJson j = (case j of JArr _ \<Rightarrow> True | JObj _ \<Rightarrow> True | _ \<Rightarrow> False)"

text \<open>
  \<open>loadFromStorage\<close>. Nothing stored leaves the map as it is; otherwise the map
  becomes \<open>new Map(data.urls || [])\<close>. Every exception ends in the \<open>catch\<close> block and
  leaves the map as it is: reading \<open>urls\<close> from \<open>null\<close>, a value of \<open>urls\<close> that is
  not an array, an entry that is not an object. (Objects made by \<open>JSON.parse\<close> have
  unique property names, so \<open>map_of\<close> reads a property.) The result is \<open>None\<close> when
  the entries are objects but not \<open>[shortCode, ShortenedUrl]\<close> pairs: the source does
  not check them, and such a map has no counterpart in the typed records of this model.
\<close>

definition loadFromStorage :: "service \<Rightarrow> service option" where
  "loadFromStorage s =
     (case storage s of
        None \<Rightarrow> Some s
      | Some data \<Rightarrow>
          (case data of
             JNull \<Rightarrow> Some s
           | JObj ps \<Rightarrow>
               (case map_of ps ''urls'' of
                  None \<Rightarrow> Some (s\<lparr>urls := newMap []\<rparr>)
                | Some v \<Rightarrow>
                    if falsyJson v then Some (s\<lparr>urls := newMap []\<rparr>)
                    else
                      (case v of
                         JArr es \<Rightarrow>
                           if \<not> list_all isObjectJson es then Some s
                           else map_option (\<lambda>entries. s\<lparr>urls := newMap entries\<rparr>)
                                  (sequence (map entryOfJson es))
                       | _ \<Rightarrow> Some s))
           | _ \<Rightarrow> Some (s\<lparr>urls := newMap []\<rparr>)))"

section \<open>Validation and the code generator\<close>

definition isValidUrl :: "env \<Rightarrow> string \<Rightarrow> bool" where
  "isValidUrl e url =
     (case envProtocol e url of
        None \<Rightarrow> False
      | Some protocol \<Rightarrow> protocol \<in> set [''http:'', ''https:''])"

text \<open>The character class \<open>[a-zA-Z0-9]\<close>.\<close>

definition isAlnum :: "char \<Rightarrow> bool" where
  "isAlnum c =
     (let n = (of_char c :: nat)
      in (97 \<le> n \<and> n \<le> 122) \<or> (65 \<le> n \<and> n \<le> 90) \<or> (48 \<le> n \<and> n \<le> 57))"

text \<open>\<open>/^[a-zA-Z0-9]+$/.test(s)\<close>: one or more characters, all of the class.\<close>

definition alphanumericRegex :: "string \<Rightarrow> bool" where
  "alphanumericRegex s = (s \<noteq> [] \<and> list_all isAlnum s)"

definition isValidShortCode :: "string \<Rightarrow> bool" where
  "isValidShortCode code =
     (let isValidLength = (length code \<ge> 3 \<and> length code \<le> 20);
          isAlphanumeric = alphanumericRegex code
      in isValidLength \<and> isAlphanumeric)"

definition has :: "('k \<times> 'v) list \<Rightarrow> 'k \<Rightarrow> bool" where
  "has m k = (map_of m k \<noteq> None)"

definition isShortCodeUnique :: "service \<Rightarrow> string \<Rightarrow> bool" where
  "isShortCodeUnique s code = (\<not> has (urls s) code)"

definition chars :: string where
  "chars = ''abcdefghijklmnopqrstuvwxyzABCDEFGHIJKLMNOPQRSTUVWXYZ0123456789''"

text \<open>\<open>String.prototype.charAt\<close>: the empty string outside the string.\<close>

definition charAt :: "string \<Rightarrow> int \<Rightarrow> string" where
  "charAt s i = (if 0 \<le> i \<and> i < int (length s) then [s ! nat i] else [])"

text \<open>
  The inner \<open>for\<close> loop of \<open>generateShortCode\<close>: \<open>randomChars rnd n i\<close> is \<open>result\<close>
  after \<open>i\<close> rounds, when \<open>n\<close> random indices were drawn before the loop; \<open>rnd k\<close> is
  the \<open>k\<close>-th value of \<open>Math.floor(Math.random() * chars.length)\<close>.
\<close>

primrec randomChars :: "(nat \<Rightarrow> nat) \<Rightarrow> nat \<Rightarrow> nat \<Rightarrow> string" where
  "randomChars rnd n 0 = []"
| "randomChars rnd n (Suc i) = randomChars rnd n i @ charAt chars (int (rnd (n + i)))"

text \<open>
  The \<open>do ... while (this.urls.has(result))\<close> loop. It has no bound on the number of
  rounds, so it is a partial function: \<open>None\<close> is the loop that never ends.
\<close>

partial_function (option) generateShortCode ::
  "(string \<times> ShortenedUrl) list \<Rightarrow> (nat \<Rightarrow> nat) \<Rightarrow> nat \<Rightarrow> string option" where
  "generateShortCode m rnd n =
     (if has m (randomChars rnd n SHORTCODE_LENGTH)
      then generateShortCode m rnd (n + SHORTCODE_LENGTH)
      else Some (randomChars rnd n SHORTCODE_LENGTH))"

declare generateShortCode.simps [code]

section \<open>Link registry\<close>

text \<open>\<open>request.validityMinutes || DEFAULT_VALIDITY_MINUTES\<close>: \<open>undefined\<close>, \<open>0\<close> and
  \<open>NaN\<close> are the falsy values of the left operand.\<close>

definition truthyNumber :: "number \<Rightarrow> bool" where
  "truthyNumber x = (x \<noteq> Num 0 \<and> x \<noteq> NaN)"

definition orDefault :: "number option \<Rightarrow> number" where
  "orDefault v =
     (case v of
        None \<Rightarrow> DEFAULT_VALIDITY_MINUTES
      | Some x \<Rightarrow> if truthyNumber x then x else DEFAULT_VALIDITY_MINUTES)"

text \<open>\<open>validityMinutes <= 0\<close>; every comparison with \<open>NaN\<close> is false.\<close>

definition leqZero :: "number \<Rightarrow> bool" where
  "leqZero x =
     (case x of Num r \<Rightarrow> r \<le> 0 | NaN \<Rightarrow> False | PosInfinity \<Rightarrow> False | NegInfinity \<Rightarrow> True)"

definition Number_isInteger :: "number \<Rightarrow> bool" where
  "Number_isInteger x = (case x of Num r \<Rightarrow> of_int \<lfloor>r\<rfloor> = r | _ \<Rightarrow> False)"

text \<open>The integer that a number satisfying \<open>Number_isInteger\<close> is.\<close>

definition integerOf :: "number \<Rightarrow> int" where
  "integerOf x = (case x of Num r \<Rightarrow> \<lfloor>r\<rfloor> | _ \<Rightarrow> 0)"

text \<open>\<open>if (request.customShortCode)\<close>: \<open>undefined\<close> and the empty string are falsy.\<close>

definition truthyString :: "string option \<Rightarrow> bool" where
  "truthyString v = (case v of None \<Rightarrow> False | Some x \<Rightarrow> x \<noteq> [])"

text \<open>The largest time value of a \<open>Date\<close>; beyond it the date is invalid and
  \<open>toISOString()\<close> throws a \<open>RangeError\<close>.\<close>

definition maxTimeValue :: int where
  "maxTimeValue = 8640000000000000"

text \<open>
  Lines 149 to 171 of \<open>createShortenedUrl\<close>: build the object, store it, save. The
  \<open>RangeError\<close> of \<open>expiresAt.toISOString()\<close> is raised before the map is touched and
  ends in the \<open>catch\<close> block.
\<close>

definition storeShortenedUrl ::
  "env \<Rightarrow> CreateUrlRequest \<Rightarrow> int \<Rightarrow> string \<Rightarrow> service \<Rightarrow> (error + ShortenedUrl) \<times> service" where
  "storeShortenedUrl e request validity code s =
     (let now = envNow e;
          expires = now + validity * 60 * 1000
      in if expires > maxTimeValue then (Inl UnexpectedError, s)
         else
           (let shortenedUrl =
                  \<lparr>urlId = envFreshId e,
                   originalUrl = reqOriginalUrl request,
                   shortCode = code,
                   customShortCode = reqCustomShortCode request,
                   createdAt = now,
                   expiresAt = expires,
                   validityMinutes = validity,
                   clicks = [],
                   isExpired = False\<rparr>
            in (Inr shortenedUrl,
                saveToStorage e (s\<lparr>urls := AList.update code shortenedUrl (urls s)\<rparr>))))"

text \<open>\<open>createShortenedUrl\<close>; \<open>None\<close> when the code generator never returns.\<close>

definition createShortenedUrl ::
  "env \<Rightarrow> CreateUrlRequest \<Rightarrow> service \<Rightarrow> ((error + ShortenedUrl) \<times> service) option" where
  "createShortenedUrl e request s =
     (if \<not> isValidUrl e (reqOriginalUrl request) then Some (Inl InvalidUrl, s)
      else
        (let validity = orDefault (reqValidityMinutes request)
         in if leqZero validity \<or> \<not> Number_isInteger validity then Some (Inl InvalidValidity, s)
            else if truthyString (reqCustomShortCode request) then
              (let custom = the (reqCustomShortCode request)
               in if \<not> isValidShortCode custom then Some (Inl InvalidShortCode, s)
                  else if \<not> isShortCodeUnique s custom then Some (Inl DuplicateShortCode, s)
                  else Some (storeShortenedUrl e request (integerOf validity) custom s))
            else
              map_option (\<lambda>code. storeShortenedUrl e request (integerOf validity) code s)
                (generateShortCode (urls s) (envRandomIndex e) 0)))"

text \<open>\<open>getShortenedUrl\<close>: the record, with the expiry flag set when the clock has
  passed \<open>expiresAt\<close>.\<close>

definition getShortenedUrl :: "env \<Rightarrow> string \<Rightarrow> service \<Rightarrow> ShortenedUrl option \<times> service" where
  "getShortenedUrl e code s =
     (case map_of (urls s) code of
        None \<Rightarrow> (None, s)
      | Some url \<Rightarrow>
          (let expired = (expiresAt url < envNow e)
           in if expired \<and> \<not> isExpired url then
                (let url' = url\<lparr>isExpired := True\<rparr>
                 in (Some url', saveToStorage e (s\<lparr>urls := AList.update code url' (urls s)\<rparr>)))
              else (Some url, s)))"

text \<open>\<open>String.prototype.split\<close> on one character, and \<open>replace\<close> of the first
  occurrence of one character.\<close>

primrec splitOn :: "char \<Rightarrow> string \<Rightarrow> string list" where
  "splitOn sep [] = [[]]"
| "splitOn sep (c # cs) =
     (if c = sep then [] # splitOn sep cs
      else (case splitOn sep cs of [] \<Rightarrow> [[c]] | p # ps \<Rightarrow> (c # p) # ps))"

primrec replaceFirst :: "char \<Rightarrow> char \<Rightarrow> string \<Rightarrow> string" where
  "replaceFirst a b [] = []"
| "replaceFirst a b (c # cs) = (if c = a then b # cs else c # replaceFirst a b cs)"

definition getCoarseLocation :: "env \<Rightarrow> string" where
  "getCoarseLocation e =
     (case envTimeZone e of
        None \<Rightarrow> ''Unknown''
      | Some timezone \<Rightarrow>
          (let parts = splitOn (CHR ''/'') timezone
           in if length parts > 1 then replaceFirst (CHR ''_'') (CHR '' '') (parts ! 1)
              else ''Unknown''))"

definition generateIpHash :: "env \<Rightarrow> string" where
  "generateIpHash e = ''hash_'' @ envIpHash e"

text \<open>\<open>accessShortenedUrl\<close>. \<open>url.clicks.push\<close> changes the object held by the map;
  the model writes the changed record back under its key.\<close>

definition accessShortenedUrl ::
  "env \<Rightarrow> string \<Rightarrow> string \<Rightarrow> service \<Rightarrow> (error + string) \<times> service" where
  "accessShortenedUrl e code src s =
     (case getShortenedUrl e code s of
        (None, s1) \<Rightarrow> (Inl NotFound, s1)
      | (Some url, s1) \<Rightarrow>
          if isExpired url then (Inl Expired, s1)
          else
            (let clickData =
                   \<lparr>timestamp = envClickTime e,
                    source = src,
                    location = getCoarseLocation e,
                    userAgent = envUserAgent e,
                    ipHash = Some (generateIpHash e)\<rparr>;
                 url' = url\<lparr>clicks := clicks url @ [clickData]\<rparr>
             in (Inr (originalUrl url),
                 saveToStorage e (s1\<lparr>urls := AList.update code url' (urls s1)\<rparr>))))"

text \<open>\<open>getAllUrls\<close>: newest first; \<open>Array.prototype.sort\<close> is stable.\<close>

definition getAllUrls :: "service \<Rightarrow> ShortenedUrl list" where
  "getAllUrls s = sort_key (\<lambda>u. - createdAt u) (map snd (urls s))"

text \<open>
  The \<open>for\<close> loop of \<open>cleanupExpiredUrls\<close> over the entries of the map, with the map
  and \<open>cleanedCount\<close> as its state.
\<close>

definition cleanupLoop :: "env \<Rightarrow> service \<Rightarrow> (string \<times> ShortenedUrl) list \<times> nat" where
  "cleanupLoop e s =
     foldl (\<lambda>(m, cleanedCount) (code, url).
              if expiresAt url < envNow e then (AList.delete code m, cleanedCount + 1)
              else (m, cleanedCount))
       (urls s, 0) (urls s)"

text \<open>
  \<open>cleanupExpiredUrls(): void\<close>. The second component is the value the call returns
  to its caller: there is none (\<open>None\<close>), \<open>cleanedCount\<close> only goes to the logger.
\<close>

definition cleanupExpiredUrls :: "env \<Rightarrow> service \<Rightarrow> service \<times> nat option" where
  "cleanupExpiredUrls e s =
     (let (m, cleanedCount) = cleanupLoop e s;
          s1 = s\<lparr>urls := m\<rparr>
      in (if cleanedCount > 0 then saveToStorage e s1 else s1, None))"

section \<open>Statistics\<close>

text \<open>
  The counting object \<open>{} as Record<string, number>\<close> is the list of its own
  properties in creation order. A name that is not an own property is looked up in
  \<open>Object.prototype\<close>:
  \<^item> \<open>__proto__\<close> reads as the prototype object, which is truthy, and the assignment
    of the string \<open>"[object Object]1"\<close> to \<open>__proto__\<close> is ignored: the object stays
    as it is, and the click is not counted;
  \<^item> the other member names read as functions, which are truthy, and the assignment
    stores the text of the function followed by \<open>1\<close>: the object is then not a table
    of counts, which is \<open>None\<close> here.
\<close>

definition functionMemberNames :: "string list" where
  "functionMemberNames =
     [''constructor'', ''__defineGetter__'', ''__defineSetter__'', ''hasOwnProperty'',
      ''__lookupGetter__'', ''__lookupSetter__'', ''isPrototypeOf'',
      ''propertyIsEnumerable'', ''toString'', ''valueOf'', ''toLocaleString'']"

text \<open>\<open>acc[key] = (acc[key] || 0) + 1\<close>.\<close>

definition countStep :: "(string \<times> nat) list \<Rightarrow> string \<Rightarrow> (string \<times> nat) list option" where
  "countStep acc key =
     (case map_of acc key of
        Some n \<Rightarrow> Some (AList.update key ((if n = 0 then 0 else n) + 1) acc)
      | None \<Rightarrow>
          if key = ''__proto__'' then Some acc
          else if key \<in> set functionMemberNames then None
          else Some (AList.update key (0 + 1) acc))"

primrec reduceCounts :: "(string \<times> nat) list \<Rightarrow> string list \<Rightarrow> (string \<times> nat) list option" where
  "reduceCounts acc [] = Some acc"
| "reduceCounts acc (key # keys) =
     (case countStep acc key of None \<Rightarrow> None | Some acc' \<Rightarrow> reduceCounts acc' keys)"

text \<open>
  \<open>Object.entries\<close> lists the own properties whose name is an array index (a
  canonical decimal numeral below \<open>2^32 - 1\<close>) first, in ascending numeric order, and
  the other names after them in creation order.
\<close>

definition isDigit :: "char \<Rightarrow> bool" where
  "isDigit c = (let n = (of_char c :: nat) in 48 \<le> n \<and> n \<le> 57)"

definition decimalValue :: "string \<Rightarrow> int" where
  "decimalValue s = foldl (\<lambda>n c. 10 * n + (of_char c - 48)) 0 s"

definition isArrayIndex :: "string \<Rightarrow> bool" where
  "isArrayIndex s =
     (s \<noteq> [] \<and> list_all isDigit s \<and> (s = ''0'' \<or> hd s \<noteq> CHR ''0'')
      \<and> decimalValue s < 4294967295)"

definition Object_entries :: "(string \<times> 'a) list \<Rightarrow> (string \<times> 'a) list" where
  "Object_entries obj =
     sort_key (\<lambda>kv. decimalValue (fst kv)) (filter (\<lambda>kv. isArrayIndex (fst kv)) obj)
     @ filter (\<lambda>kv. \<not> isArrayIndex (fst kv)) obj"

text \<open>
  \<open>getTopSources\<close> of the service, on the clicks of one link. An entry
  \<open>{ source, count }\<close> is a pair. The comparator \<open>b.count - a.count\<close> sorts by
  descending count, and the sort is stable.
\<close>

definition getTopSources :: "ClickData list \<Rightarrow> (string \<times> nat) list option" where
  "getTopSources cs =
     map_option
       (\<lambda>sourceCounts. take 5 (sort_key (\<lambda>sc. - int (snd sc)) (Object_entries sourceCounts)))
       (reduceCounts [] (map source cs))"





section \<open>Sequences of operations\<close>

datatype operation =
  Create env CreateUrlRequest
  | Resolve env string
  | Access env string string
  | ListAll
  | Purge env

text \<open>The service after one operation; \<open>None\<close> when the operation does not return.\<close>

fun step :: "operation \<Rightarrow> service \<Rightarrow> service option" where
  "step (Create e request) s = map_option snd (createShortenedUrl e request s)"
| "step (Resolve e code) s = Some (snd (getShortenedUrl e code s))"
| "step (Access e code src) s = Some (snd (accessShortenedUrl e code src s))"
| "step ListAll s = Some s"
| "step (Purge e) s = Some (fst (cleanupExpiredUrls e s))"

text \<open>Whether the store accepts the write of an operation.\<close>

fun opStoreAccepts :: "operation \<Rightarrow> bool" where
  "opStoreAccepts (Create e request) = envStoreAccepts e"
| "opStoreAccepts (Resolve e code) = envStoreAccepts e"
| "opStoreAccepts (Access e code src) = envStoreAccepts e"
| "opStoreAccepts ListAll = True"
| "opStoreAccepts (Purge e) = envStoreAccepts e"

text \<open>The services reached after each operation of a sequence, in order.\<close>

fun exec :: "operation list \<Rightarrow> service \<Rightarrow> service list option" where
  "exec [] s = Some []"
| "exec (x # xs) s =
     (case step x s of
        None \<Rightarrow> None
      | Some s' \<Rightarrow> (case exec xs s' of None \<Rightarrow> None | Some ss \<Rightarrow> Some (s' # ss)))"

section \<open>Example inputs\<close>

text \<open>A stand-in for the platform's URL parser on the three schemes of the examples.\<close>

definition exampleProtocol :: "string \<Rightarrow> string option" where
  "exampleProtocol url =
     (if take 8 url = ''https://'' then Some ''https:''
      else if take 7 url = ''http://'' then Some ''http:''
      else if take 6 url = ''ftp://'' then Some ''ftp:''
      else None)"


text \<open>A source whose first round draws \<open>airAJS\<close> and whose second round draws
  \<open>1airAJ\<close>.\<close>

definition exampleRandom :: "nat \<Rightarrow> nat" where
  "exampleRandom i = [0, 8, 17, 26, 35, 44, 53] ! (i mod 7)"

text \<open>A source that draws the index 0 for ever.\<close>

definition constantRandom :: "nat \<Rightarrow> nat" where
  "constantRandom i = 0"

text \<open>An environment in which the clock stands at \<open>t\<close> and the store accepts
  writes, and one in which the store refuses them.\<close>

definition exampleEnv :: "int \<Rightarrow> env" where
  "exampleEnv t =
     \<lparr>envNow = t, envClickTime = t, envSaveTime = t, envStoreAccepts = True,
      envProtocol = exampleProtocol, envRandomIndex = exampleRandom,
      envFreshId = ''url_1_abc'', envTimeZone = Some ''Asia/Kolkata'',
      envUserAgent = ''agent'', envIpHash = ''k3j2h1g0''\<rparr>"

definition fullStoreEnv :: "int \<Rightarrow> env" where
  "fullStoreEnv t = (exampleEnv t)\<lparr>envStoreAccepts := False\<rparr>"

definition exampleRequest :: "number option \<Rightarrow> string option \<Rightarrow> CreateUrlRequest" where
  "exampleRequest v c =
     \<lparr>reqOriginalUrl = ''https://example.com/x'', reqValidityMinutes = v,
      reqCustomShortCode = c\<rparr>"


definition exampleUrl :: "string \<Rightarrow> int \<Rightarrow> bool \<Rightarrow> ShortenedUrl" where
  "exampleUrl code expires flag =
     \<lparr>urlId = ''url_0_xyz'', originalUrl = ''https://example.com/x'', shortCode = code,
      customShortCode = None, createdAt = 0, expiresAt = expires, validityMinutes = 30,
      clicks = [], isExpired = flag\<rparr>"


definition emptyService :: service where
  "emptyService = \<lparr>urls = [], storage = None\<rparr>"

text \<open>Two links: \<open>abc\<close> expires at time 500, \<open>xyz\<close> at time 5000; no flag is set.\<close>

definition exampleService :: service where
  "exampleService =
     \<lparr>urls = [(''abc'', exampleUrl ''abc'' 500 False), (''xyz'', exampleUrl ''xyz'' 5000 False)],
      storage = None\<rparr>"

text \<open>The same, with the flag of \<open>abc\<close> set.\<close>

definition flaggedService :: service where
  "flaggedService =
     \<lparr>urls = [(''abc'', exampleUrl ''abc'' 500 True), (''xyz'', exampleUrl ''xyz'' 5000 False)],
      storage = None\<rparr>"

definition exampleOps :: "operation list" where
  "exampleOps =
     [Access (exampleEnv 1000) ''abc'' ''direct_link'',
      Create (exampleEnv 1000) (exampleRequest None (Some ''abc'')),
      Resolve (exampleEnv 2000) ''abc'',
      ListAll]"

section \<open>Auxiliary facts\<close>

subsection \<open>The code space and the random indices\<close>


lemma length_chars: "length chars = 62"
  by (simp add: chars_def)









lemma exampleRandom_range: "\<forall>i. exampleRandom i < length chars"
proof
  fix i :: nat
  have "i mod 7 < 7" by simp
  then have "i mod 7 = 0 \<or> i mod 7 = 1 \<or> i mod 7 = 2 \<or> i mod 7 = 3 \<or> i mod 7 = 4 \<or> i mod 7 = 5 \<or> i mod 7 = 6"
    by arith
  then show "exampleRandom i < length chars"
    by (auto simp: exampleRandom_def length_chars)
qed





subsection \<open>Association lists as maps\<close>

lemma urls_saveToStorage: "urls (saveToStorage e s) = urls s"
  by (simp add: saveToStorage_def)

lemma update_fresh: "k \<notin> fst ` set al \<Longrightarrow> AList.update k v al = al @ [(k, v)]"
  by (induction al) auto


lemma map_of_update_same: "map_of (AList.update k v al) k = Some v"
  by (simp add: update_conv')

lemma map_of_update_other: "k' \<noteq> k \<Longrightarrow> map_of (AList.update k v al) k' = map_of al k'"
  by (simp add: update_conv')

lemma keys_update_present:
  "map_of al k = Some u \<Longrightarrow> map fst (AList.update k v al) = map fst al"
  by (induction al) (auto split: if_splits)

lemma has_iff_key: "has m k \<longleftrightarrow> k \<in> fst ` set m"
  by (simp add: has_def map_of_eq_None_iff)

lemma delete_as_filter: "AList.delete k m = filter (\<lambda>kv. fst kv \<noteq> k) m"
  by (induction m) auto

lemma distinct_keys_filter:
  assumes "distinct (map fst xs)"
  shows "filter (\<lambda>kv. fst kv \<notin> fst ` set (filter P xs)) xs = filter (\<lambda>kv. \<not> P kv) xs"
proof (rule filter_cong[OF refl])
  fix kv assume kv: "kv \<in> set xs"
  show "(fst kv \<notin> fst ` set (filter P xs)) = (\<not> P kv)"
  proof
    assume "fst kv \<notin> fst ` set (filter P xs)"
    with kv show "\<not> P kv" by force
  next
    assume n: "\<not> P kv"
    show "fst kv \<notin> fst ` set (filter P xs)"
    proof
      assume "fst kv \<in> fst ` set (filter P xs)"
      then obtain kv' where kv': "kv' \<in> set xs" "P kv'" "fst kv' = fst kv" by auto
      from assms kv kv'(1,3) have "kv' = kv"
        by (metis eq_key_imp_eq_value prod.collapse)
      with n kv'(2) show False by simp
    qed
  qed
qed

subsection \<open>The purge loop\<close>

lemma cleanup_foldl:
  "foldl (\<lambda>(m, cleanedCount) (code, url).
            if expiresAt url < t then (AList.delete code m, cleanedCount + 1)
            else (m, cleanedCount)) (m, c) xs
   = (filter (\<lambda>kv. fst kv \<notin> fst ` set (filter (\<lambda>kv. expiresAt (snd kv) < t) xs)) m,
      c + length (filter (\<lambda>kv. expiresAt (snd kv) < t) xs))"
proof (induction xs arbitrary: m c)
  case Nil
  show ?case by simp
next
  case (Cons x xs)
  obtain k u where x: "x = (k, u)" by (cases x)
  show ?case
  proof (cases "expiresAt u < t")
    case True
    have "filter (\<lambda>kv. fst kv \<notin> fst ` set (filter (\<lambda>kv. expiresAt (snd kv) < t) xs))
            (filter (\<lambda>kv. fst kv \<noteq> k) m)
          = filter (\<lambda>kv. fst kv \<notin> fst ` set (filter (\<lambda>kv. expiresAt (snd kv) < t) (x # xs))) m"
      using True x by (auto intro!: filter_cong)
    with True x Cons show ?thesis by (simp add: delete_as_filter)
  next
    case False
    with x Cons show ?thesis by simp
  qed
qed

lemma cleanupLoop_eq:
  "cleanupLoop e s =
     (filter (\<lambda>kv. fst kv \<notin> fst ` set (filter (\<lambda>kv. expiresAt (snd kv) < envNow e) (urls s))) (urls s),
      length (filter (\<lambda>kv. expiresAt (snd kv) < envNow e) (urls s)))"
  unfolding cleanupLoop_def by (simp add: cleanup_foldl)

lemma cleanupLoop_count0:
  "snd (cleanupLoop e s) = 0 \<Longrightarrow> fst (cleanupLoop e s) = urls s"
  by (simp add: cleanupLoop_eq)

subsection \<open>The generator loop\<close>


lemma generate_never:
  "generateShortCode m rnd n = Some y \<Longrightarrow> \<exists>k. \<not> has m (randomChars rnd (n + k * SHORTCODE_LENGTH) SHORTCODE_LENGTH)"
proof (rule generateShortCode.raw_induct[where P = "\<lambda>m rnd n y. \<exists>k. \<not> has m (randomChars rnd (n + k * SHORTCODE_LENGTH) SHORTCODE_LENGTH)"])
  fix gen m rnd n and y :: string
  assume IH: "\<And>m rnd n y. gen m rnd n = Some y \<Longrightarrow> \<exists>k. \<not> has m (randomChars rnd (n + k * SHORTCODE_LENGTH) SHORTCODE_LENGTH)"
    and eq: "(if has m (randomChars rnd n SHORTCODE_LENGTH) then gen m rnd (n + SHORTCODE_LENGTH) else Some (randomChars rnd n SHORTCODE_LENGTH)) = Some y"
  show "\<exists>k. \<not> has m (randomChars rnd (n + k * SHORTCODE_LENGTH) SHORTCODE_LENGTH)"
  proof (cases "has m (randomChars rnd n SHORTCODE_LENGTH)")
    case True
    with eq have "gen m rnd (n + SHORTCODE_LENGTH) = Some y" by simp
    from IH[OF this] obtain k where "\<not> has m (randomChars rnd ((n + SHORTCODE_LENGTH) + k * SHORTCODE_LENGTH) SHORTCODE_LENGTH)"
      by auto
    then have "\<not> has m (randomChars rnd (n + Suc k * SHORTCODE_LENGTH) SHORTCODE_LENGTH)"
      by (simp add: algebra_simps)
    then show ?thesis by blast
  next
    case False
    then have "\<not> has m (randomChars rnd (n + 0 * SHORTCODE_LENGTH) SHORTCODE_LENGTH)" by simp
    then show ?thesis by blast
  qed
qed

lemma generate_fresh: "generateShortCode m rnd n = Some y \<Longrightarrow> \<not> has m y"
proof (rule generateShortCode.raw_induct[where P = "\<lambda>m rnd n y. \<not> has m y"])
  fix gen m rnd n and y :: string
  assume IH: "\<And>m rnd n y. gen m rnd n = Some y \<Longrightarrow> \<not> has m y"
    and eq: "(if has m (randomChars rnd n SHORTCODE_LENGTH) then gen m rnd (n + SHORTCODE_LENGTH)
              else Some (randomChars rnd n SHORTCODE_LENGTH)) = Some y"
  show "\<not> has m y"
    using IH eq by (cases "has m (randomChars rnd n SHORTCODE_LENGTH)") auto
qed

subsection \<open>Creation\<close>

lemma isValidShortCode_iff:
  "isValidShortCode c \<longleftrightarrow> 3 \<le> length c \<and> length c \<le> 20 \<and> list_all isAlnum c"
  by (auto simp: isValidShortCode_def alphanumericRegex_def Let_def)

lemma storeShortenedUrl_in_range:
  assumes "envNow e + v * 60 * 1000 \<le> maxTimeValue"
  shows "\<exists>u s'. storeShortenedUrl e request v c s = (Inr u, s') \<and> shortCode u = c
           \<and> map_of (urls s') c = Some u"
  using assms
  by (simp add: storeShortenedUrl_def Let_def urls_saveToStorage map_of_update_same)

lemma example_valid_url: "isValidUrl (exampleEnv t) (reqOriginalUrl (exampleRequest v c))"
  by (simp add: isValidUrl_def exampleEnv_def exampleRequest_def exampleProtocol_def)

lemma storeShortenedUrl_other:
  "storeShortenedUrl e request v c s = (r, s') \<Longrightarrow> c \<noteq> code \<Longrightarrow>
   map_of (urls s') code = map_of (urls s) code"
  by (auto simp: storeShortenedUrl_def Let_def urls_saveToStorage map_of_update_other split: if_splits)

lemma createShortenedUrl_keeps:
  assumes "createShortenedUrl e request s = Some (r, s')" "map_of (urls s) code = Some u"
  shows "map_of (urls s') code = Some u"
proof -
  have hc: "has (urls s) code" using assms(2) by (simp add: has_def)
  from assms(1) consider "s' = s"
    | c where "storeShortenedUrl e request (integerOf (orDefault (reqValidityMinutes request))) c s = (r, s')" "\<not> has (urls s) c"
    by (auto simp: createShortenedUrl_def Let_def isShortCodeUnique_def split: if_splits dest: generate_fresh)
  then show ?thesis
  proof cases
    case 1 with assms(2) show ?thesis by simp
  next
    case 2
    with hc have "c \<noteq> code" by auto
    from storeShortenedUrl_other[OF 2(1) this] assms(2) show ?thesis by simp
  qed
qed

lemma createShortenedUrl_default_validity:
  assumes "reqValidityMinutes request = None"
    and "createShortenedUrl e request s = Some (Inr u, s')"
  shows "validityMinutes u = 30"
proof -
  have v: "integerOf (orDefault (reqValidityMinutes request)) = 30"
    using assms(1) by (simp add: orDefault_def DEFAULT_VALIDITY_MINUTES_def integerOf_def)
  have st: "storeShortenedUrl e request 30 c s = (Inr u, s') \<Longrightarrow> validityMinutes u = 30" for c
    by (auto simp: storeShortenedUrl_def Let_def split: if_splits)
  from assms(2) v show ?thesis
    by (auto simp: createShortenedUrl_def Let_def split: if_splits dest: st)
qed

lemma createShortenedUrl_rejects_validity:
  assumes "isValidUrl e (reqOriginalUrl request)"
    and "reqValidityMinutes request = Some (Num r)" "r \<noteq> 0"
    and "r < 0 \<or> of_int \<lfloor>r\<rfloor> \<noteq> r"
  shows "createShortenedUrl e request s = Some (Inl InvalidValidity, s)"
  using assms
  by (auto simp: createShortenedUrl_def Let_def orDefault_def truthyNumber_def leqZero_def
      Number_isInteger_def)

subsection \<open>The expiry flag under each operation\<close>

lemma getShortenedUrl_flag:
  assumes "map_of (urls s) code = Some u" "isExpired u"
  shows "\<exists>u'. map_of (urls (snd (getShortenedUrl e c s))) code = Some u' \<and> isExpired u'"
proof (cases "c = code")
  case True
  with assms show ?thesis by (simp add: getShortenedUrl_def Let_def)
next
  case False
  with assms show ?thesis
    by (auto simp: getShortenedUrl_def Let_def urls_saveToStorage map_of_update_other split: option.splits)
qed

lemma getShortenedUrl_result:
  "getShortenedUrl e c s = (Some url, s1) \<Longrightarrow> map_of (urls s1) c = Some url"
  by (auto simp: getShortenedUrl_def Let_def urls_saveToStorage map_of_update_same split: option.splits if_splits)

lemma accessShortenedUrl_flag:
  assumes "map_of (urls s) code = Some u" "isExpired u"
  shows "\<exists>u'. map_of (urls (snd (accessShortenedUrl e c src s))) code = Some u' \<and> isExpired u'"
proof -
  obtain r s1 where g: "getShortenedUrl e c s = (r, s1)" by (cases "getShortenedUrl e c s")
  from getShortenedUrl_flag[OF assms, of e c] g
  obtain u1 where u1: "map_of (urls s1) code = Some u1" "isExpired u1" by auto
  show ?thesis
  proof (cases r)
    case None
    with g u1 show ?thesis by (simp add: accessShortenedUrl_def)
  next
    case (Some url)
    with g have m: "map_of (urls s1) c = Some url" by (simp add: getShortenedUrl_result)
    show ?thesis
    proof (cases "isExpired url")
      case True
      with g Some u1 show ?thesis by (simp add: accessShortenedUrl_def)
    next
      case False
      with m u1 have "c \<noteq> code" by auto
      with g Some u1 False show ?thesis
        by (simp add: accessShortenedUrl_def Let_def urls_saveToStorage map_of_update_other)
    qed
  qed
qed

lemma cleanupExpiredUrls_flag:
  assumes "map_of (urls s) code = Some u"
  shows "map_of (urls (fst (cleanupExpiredUrls e s))) code = None
       \<or> map_of (urls (fst (cleanupExpiredUrls e s))) code = Some u"
proof -
  have u: "urls (fst (cleanupExpiredUrls e s)) = fst (cleanupLoop e s)"
    by (simp add: cleanupExpiredUrls_def urls_saveToStorage Let_def split: prod.splits)
  show ?thesis
  proof (cases "code \<in> fst ` set (filter (\<lambda>kv. expiresAt (snd kv) < envNow e) (urls s))")
    case True
    then have "code \<notin> fst ` set (fst (cleanupLoop e s))" by (force simp: cleanupLoop_eq)
    then show ?thesis using u by (simp add: map_of_eq_None_iff)
  next
    case False
    have "map_of (filter (\<lambda>kv. fst kv \<notin> A) xs) code = map_of xs code" if "code \<notin> A" for A xs
      using that by (induction xs) (auto simp: fun_eq_iff)
    from this[OF False]
    have "map_of (fst (cleanupLoop e s)) code = map_of (urls s) code"
      unfolding cleanupLoop_eq fst_conv .
    with assms u show ?thesis by simp
  qed
qed

lemma step_flag:
  assumes "step x s = Some s'" "map_of (urls s) code = Some u" "isExpired u"
  shows "map_of (urls s') code = None \<or> (\<exists>u'. map_of (urls s') code = Some u' \<and> isExpired u')"
proof (cases x)
  case (Create e request)
  with assms(1) obtain r where "createShortenedUrl e request s = Some (r, s')" by auto
  from createShortenedUrl_keeps[OF this assms(2)] assms(3) show ?thesis by simp
next
  case (Resolve e c)
  with assms getShortenedUrl_flag[OF assms(2,3), of e c] show ?thesis by auto
next
  case (Access e c src)
  with assms accessShortenedUrl_flag[OF assms(2,3), of e c src] show ?thesis by auto
next
  case ListAll
  with assms show ?thesis by auto
next
  case (Purge e)
  with assms cleanupExpiredUrls_flag[OF assms(2), of e] show ?thesis by auto
qed

subsection \<open>Keys stay unique\<close>

text \<open>The keys of a \<open>Map\<close> are unique; every operation keeps the association list so.\<close>

lemma storeShortenedUrl_distinct:
  "storeShortenedUrl e request v c s = (r, s') \<Longrightarrow> distinct (map fst (urls s)) \<Longrightarrow>
   distinct (map fst (urls s'))"
  by (auto simp: storeShortenedUrl_def Let_def urls_saveToStorage distinct_update split: if_splits)

lemma createShortenedUrl_distinct:
  "createShortenedUrl e request s = Some (r, s') \<Longrightarrow> distinct (map fst (urls s)) \<Longrightarrow>
   distinct (map fst (urls s'))"
  by (auto simp: createShortenedUrl_def Let_def split: if_splits dest: storeShortenedUrl_distinct)

lemma getShortenedUrl_distinct:
  "distinct (map fst (urls s)) \<Longrightarrow> distinct (map fst (urls (snd (getShortenedUrl e c s))))"
  by (auto simp: getShortenedUrl_def Let_def urls_saveToStorage distinct_update split: option.splits)

lemma accessShortenedUrl_distinct:
  assumes "distinct (map fst (urls s))"
  shows "distinct (map fst (urls (snd (accessShortenedUrl e c src s))))"
proof -
  obtain r s1 where g: "getShortenedUrl e c s = (r, s1)" by (cases "getShortenedUrl e c s")
  with getShortenedUrl_distinct[OF assms, of e c] have "distinct (map fst (urls s1))" by simp
  with g show ?thesis
    by (auto simp: accessShortenedUrl_def Let_def urls_saveToStorage distinct_update split: option.splits)
qed

lemma cleanupExpiredUrls_distinct:
  assumes "distinct (map fst (urls s))"
  shows "distinct (map fst (urls (fst (cleanupExpiredUrls e s))))"
proof -
  have "urls (fst (cleanupExpiredUrls e s)) = fst (cleanupLoop e s)"
    by (simp add: cleanupExpiredUrls_def urls_saveToStorage Let_def split: prod.splits)
  with assms show ?thesis by (simp add: cleanupLoop_eq distinct_map_filter)
qed

lemma step_distinct:
  assumes "step x s = Some s'" "distinct (map fst (urls s))"
  shows "distinct (map fst (urls s'))"
proof (cases x)
  case (Create e request)
  with assms(1) obtain r where "createShortenedUrl e request s = Some (r, s')" by auto
  from createShortenedUrl_distinct[OF this assms(2)] show ?thesis .
next
  case (Resolve e c)
  with assms getShortenedUrl_distinct[OF assms(2), of e c] show ?thesis by auto
next
  case (Access e c src)
  with assms accessShortenedUrl_distinct[OF assms(2), of e c src] show ?thesis by auto
next
  case ListAll
  with assms show ?thesis by auto
next
  case (Purge e)
  with assms cleanupExpiredUrls_distinct[OF assms(2), of e] show ?thesis by auto
qed

lemma newMap_keys_distinct: "distinct (map fst (newMap xs))"
proof -
  have "distinct (map fst acc) \<Longrightarrow>
        distinct (map fst (foldl (\<lambda>m kv. AList.update (fst kv) (snd kv) m) acc xs))" for acc :: "('a \<times> 'b) list"
    by (induction xs arbitrary: acc) (simp_all add: distinct_update)
  from this[of "[]"] show ?thesis by (simp add: newMap_def)
qed

subsection \<open>What each operation leaves in the store\<close>

lemma storage_saveToStorage:
  "storage (saveToStorage e s)
     = (if envStoreAccepts e then Some (storageData e (urls s)) else storage s)"
  by (simp add: saveToStorage_def)

lemma storeShortenedUrl_saved:
  "storeShortenedUrl e request v c s = (r, s') \<Longrightarrow>
   s' = s \<or> (\<exists>m. s' = saveToStorage e (s\<lparr>urls := m\<rparr>))"
  by (auto simp: storeShortenedUrl_def Let_def split: if_splits)

lemma createShortenedUrl_saved:
  "createShortenedUrl e request s = Some (r, s') \<Longrightarrow>
   s' = s \<or> (\<exists>m. s' = saveToStorage e (s\<lparr>urls := m\<rparr>))"
  by (auto simp: createShortenedUrl_def Let_def split: if_splits dest: storeShortenedUrl_saved)

lemma getShortenedUrl_saved:
  "snd (getShortenedUrl e c s) = s
   \<or> (\<exists>m. snd (getShortenedUrl e c s) = saveToStorage e (s\<lparr>urls := m\<rparr>))"
  by (auto simp: getShortenedUrl_def Let_def split: option.splits)

lemma getShortenedUrl_unflagged:
  "getShortenedUrl e c s = (Some url, s1) \<Longrightarrow> \<not> isExpired url \<Longrightarrow> s1 = s"
  by (auto simp: getShortenedUrl_def Let_def split: option.splits if_splits)

lemma accessShortenedUrl_saved:
  "snd (accessShortenedUrl e c src s) = s
   \<or> (\<exists>m. snd (accessShortenedUrl e c src s) = saveToStorage e (s\<lparr>urls := m\<rparr>))"
proof -
  obtain r s1 where g: "getShortenedUrl e c s = (r, s1)" by (cases "getShortenedUrl e c s")
  with getShortenedUrl_saved[of e c s]
  have s1: "s1 = s \<or> (\<exists>m. s1 = saveToStorage e (s\<lparr>urls := m\<rparr>))" by simp
  show ?thesis
  proof (cases r)
    case None
    with g s1 show ?thesis by (simp add: accessShortenedUrl_def)
  next
    case (Some url)
    show ?thesis
    proof (cases "isExpired url")
      case True
      with g Some s1 show ?thesis by (simp add: accessShortenedUrl_def)
    next
      case False
      with g Some have "s1 = s" by (auto dest: getShortenedUrl_unflagged)
      with g Some False show ?thesis by (auto simp: accessShortenedUrl_def Let_def)
    qed
  qed
qed

lemma cleanupExpiredUrls_saved:
  "fst (cleanupExpiredUrls e s) = s
   \<or> (\<exists>m. fst (cleanupExpiredUrls e s) = saveToStorage e (s\<lparr>urls := m\<rparr>))"
proof (cases "snd (cleanupLoop e s) = 0")
  case True
  from cleanupLoop_count0[OF this] True have "cleanupLoop e s = (urls s, 0)"
    by (metis prod.collapse)
  then show ?thesis by (simp add: cleanupExpiredUrls_def)
next
  case False
  then show ?thesis by (auto simp: cleanupExpiredUrls_def Let_def split: prod.splits)
qed

lemma saved_storage:
  assumes "s' = s \<or> (\<exists>m. s' = saveToStorage e (s\<lparr>urls := m\<rparr>))" "urls s' \<noteq> urls s"
  shows "storage s' = (if envStoreAccepts e then Some (storageData e (urls s')) else storage s)"
  using assms by (auto simp: saveToStorage_def)

lemma step_storage:
  assumes "step x s = Some s'" "urls s' \<noteq> urls s"
  shows "(opStoreAccepts x \<longrightarrow> (\<exists>e. storage s' = Some (storageData e (urls s'))))
       \<and> (\<not> opStoreAccepts x \<longrightarrow> storage s' = storage s)"
proof (cases x)
  case (Create e request)
  with assms obtain r where "createShortenedUrl e request s = Some (r, s')" by auto
  from saved_storage[OF createShortenedUrl_saved[OF this] assms(2)] Create show ?thesis by auto
next
  case (Resolve e c)
  with assms have "s' = snd (getShortenedUrl e c s)" by simp
  with saved_storage[OF _ assms(2), of e] getShortenedUrl_saved[of e c s] Resolve
  show ?thesis by auto
next
  case (Access e c src)
  with assms have "s' = snd (accessShortenedUrl e c src s)" by simp
  with saved_storage[OF _ assms(2), of e] accessShortenedUrl_saved[of e c src s] Access
  show ?thesis by auto
next
  case ListAll
  with assms show ?thesis by simp
next
  case (Purge e)
  with assms have "s' = fst (cleanupExpiredUrls e s)" by simp
  with saved_storage[OF _ assms(2), of e] cleanupExpiredUrls_saved[of e s] Purge
  show ?thesis by auto
qed

subsection \<open>Clicks under resolve\<close>

lemma getShortenedUrl_clicks:
  "map (\<lambda>kv. (fst kv, clicks (snd kv))) (urls (snd (getShortenedUrl e c s)))
   = map (\<lambda>kv. (fst kv, clicks (snd kv))) (urls s)"
proof -
  have "map (\<lambda>kv. (fst kv, clicks (snd kv))) (AList.update c (u\<lparr>isExpired := True\<rparr>) m)
        = map (\<lambda>kv. (fst kv, clicks (snd kv))) m" if "map_of m c = Some u" for m u
    using that by (induction m) (auto split: if_splits)
  then show ?thesis
    by (auto simp: getShortenedUrl_def Let_def urls_saveToStorage split: option.splits)
qed

lemma getShortenedUrl_cases:
  "getShortenedUrl e c s = (r, s1) \<Longrightarrow>
   (r = None \<and> map_of (urls s) c = None)
   \<or> (\<exists>u. map_of (urls s) c = Some u \<and> map_of (urls s1) c = r
        \<and> (r = Some u \<or> r = Some (u\<lparr>isExpired := True\<rparr>))
        \<and> (\<forall>k. k \<noteq> c \<longrightarrow> map_of (urls s1) k = map_of (urls s) k))"
  by (auto simp: getShortenedUrl_def Let_def urls_saveToStorage map_of_update_same
      map_of_update_other split: option.splits if_splits)

subsection \<open>Writing and reading the stored form\<close>

lemma sequence_map_Some: "(\<And>x. f (g x) = Some x) \<Longrightarrow> sequence (map (f \<circ> g) xs) = Some xs"
  by (induction xs) auto

lemma clickOfJson_clickJson: "clickOfJson (clickJson c) = Some c"
  by (cases "ipHash c")
     (simp_all add: clickOfJson_def clickJson_def getIso_def getStr_def getOptStr_def)

lemma clicks_roundtrip: "sequence (map (clickOfJson \<circ> clickJson) cs) = Some cs"
  by (rule sequence_map_Some) (rule clickOfJson_clickJson)

lemma urlOfJson_urlJson: "urlOfJson (urlJson u) = Some u"
  by (cases "customShortCode u")
     (simp_all add: urlOfJson_def urlJson_def getIso_def getStr_def getOptStr_def getNum_def
        getBool_def getArr_def clicks_roundtrip)

lemma entryOfJson_entryJson: "entryOfJson (entryJson kv) = Some kv"
  by (simp add: entryOfJson_def entryParts_def entryJson_def urlOfJson_urlJson)

lemma entries_roundtrip: "sequence (map (entryOfJson \<circ> entryJson) m) = Some m"
  by (rule sequence_map_Some) (rule entryOfJson_entryJson)

lemma newMap_foldl:
  "distinct (map fst (acc @ xs)) \<Longrightarrow>
   foldl (\<lambda>m kv. AList.update (fst kv) (snd kv) m) acc xs = acc @ xs"
proof (induction xs arbitrary: acc)
  case Nil
  show ?case by simp
next
  case (Cons x xs)
  from Cons.prems have "fst x \<notin> fst ` set acc" by auto
  then have "AList.update (fst x) (snd x) acc = acc @ [x]" by (simp add: update_fresh)
  moreover from Cons.prems have "distinct (map fst ((acc @ [x]) @ xs))" by simp
  ultimately show ?case using Cons.IH[of "acc @ [x]"] by simp
qed

lemma newMap_distinct: "distinct (map fst xs) \<Longrightarrow> newMap xs = xs"
  using newMap_foldl[of "[]" xs] by (simp add: newMap_def)

subsection \<open>Counting sources\<close>











section \<open>Purging expired links\<close>

text \<open>
  Claim C1, as the code has it. For every service whose map has unique keys and every
  environment, \<open>cleanupExpiredUrls\<close> leaves in the map exactly the records whose
  \<open>expiresAt\<close> is not earlier than the clock, in their order; the \<open>isExpired\<close> flag
  is not consulted. \<open>cleanedCount\<close> is the number of records removed. When at least
  one record was removed the whole new map is written to the store, provided the store
  accepts the write; when no record was removed, or \<open>setItem\<close> throws, the store
  keeps what it held. The method is declared \<open>void\<close>: it returns no value to its
  caller.
\<close>

theorem cleanupExpiredUrls_purges_by_timestamp:
  assumes "distinct (map fst (urls s))"
  shows "urls (fst (cleanupExpiredUrls e s))
           = filter (\<lambda>kv. \<not> expiresAt (snd kv) < envNow e) (urls s)
       \<and> snd (cleanupLoop e s) = length (filter (\<lambda>kv. expiresAt (snd kv) < envNow e) (urls s))
       \<and> storage (fst (cleanupExpiredUrls e s))
           = (if (\<exists>kv \<in> set (urls s). expiresAt (snd kv) < envNow e) \<and> envStoreAccepts e
              then Some (JObj [(''urls'', JArr (map entryJson
                          (filter (\<lambda>kv. \<not> expiresAt (snd kv) < envNow e) (urls s)))),
                        (''lastUpdated'', JIso (envSaveTime e))])
              else storage s)
       \<and> snd (cleanupExpiredUrls e s) = None"
proof -
  have "(\<exists>kv \<in> set (urls s). expiresAt (snd kv) < envNow e)
        \<longleftrightarrow> 0 < length (filter (\<lambda>kv. expiresAt (snd kv) < envNow e) (urls s))"
    by (simp add: filter_empty_conv)
  then show ?thesis
    using distinct_keys_filter[OF assms, of "\<lambda>kv. expiresAt (snd kv) < envNow e"]
    by (simp add: cleanupExpiredUrls_def cleanupLoop_eq saveToStorage_def storageData_def Let_def)
qed

text \<open>The example service at time 1000: \<open>abc\<close> (expired at 500, flag not set) goes,
  \<open>xyz\<close> stays. With a store that accepts the write the new map is saved; with a
  store that refuses it the store stays empty.\<close>

theorem cleanupExpiredUrls_purges_by_timestamp_witness:
  "distinct (map fst (urls exampleService))
   \<and> urls (fst (cleanupExpiredUrls (exampleEnv 1000) exampleService))
       = [(''xyz'', exampleUrl ''xyz'' 5000 False)]
   \<and> snd (cleanupLoop (exampleEnv 1000) exampleService) = 1
   \<and> storage (fst (cleanupExpiredUrls (exampleEnv 1000) exampleService))
       = Some (JObj [(''urls'', JArr [entryJson (''xyz'', exampleUrl ''xyz'' 5000 False)]),
                     (''lastUpdated'', JIso 1000)])
   \<and> urls (fst (cleanupExpiredUrls (fullStoreEnv 1000) exampleService))
       = [(''xyz'', exampleUrl ''xyz'' 5000 False)]
   \<and> storage (fst (cleanupExpiredUrls (fullStoreEnv 1000) exampleService)) = None
   \<and> snd (cleanupExpiredUrls (exampleEnv 1000) exampleService) = None"
proof -
  have h: "distinct (map fst (urls exampleService))" by (simp add: exampleService_def)
  from cleanupExpiredUrls_purges_by_timestamp[OF h, where e = "exampleEnv 1000"]
    cleanupExpiredUrls_purges_by_timestamp[OF h, where e = "fullStoreEnv 1000"] h
  show ?thesis
    by (simp add: exampleService_def exampleEnv_def fullStoreEnv_def exampleUrl_def)
qed

text \<open>One record is removed there, and the call does not return the count 1.\<close>

theorem cleanupExpiredUrls_returns_count_counterexample:
  "snd (cleanupLoop (exampleEnv 1000) exampleService) = 1
   \<and> snd (cleanupExpiredUrls (exampleEnv 1000) exampleService) \<noteq> Some 1"
  by code_simp

section \<open>Validity of a new link\<close>

text \<open>
  Claim C2, at the request \<open>{ originalUrl: "https://example.com/x", validityMinutes: 0,
  customShortCode: "abc" }\<close>: \<open>0 || DEFAULT_VALIDITY_MINUTES\<close> is 30, so the check
  \<open>validityMinutes <= 0\<close> never sees the 0, and the link is created with a validity of
  30 minutes instead of the request failing.
\<close>

theorem createShortenedUrl_zero_validity:
  "map_option fst
     (createShortenedUrl (exampleEnv 1000) (exampleRequest (Some (Num 0)) (Some ''abc'')) emptyService)
   = Some (Inr \<lparr>urlId = ''url_1_abc'', originalUrl = ''https://example.com/x'',
                shortCode = ''abc'', customShortCode = Some ''abc'', createdAt = 1000,
                expiresAt = 1801000, validityMinutes = 30, clicks = [], isExpired = False\<rparr>)"
  by code_simp

theorem createShortenedUrl_zero_validity_witness:
  "\<exists>u s'. createShortenedUrl (exampleEnv 1000) (exampleRequest (Some (Num 0)) (Some ''abc'')) emptyService
            = Some (Inr u, s') \<and> validityMinutes u = 30"
  using createShortenedUrl_zero_validity by (auto simp: map_option_case split: option.splits)

section \<open>The stored form\<close>

text \<open>
  Claim C3, as the code has it. Whenever an operation (create, resolve, access, list,
  purge) changes the map: if the store accepts the write, it holds afterwards one
  object with exactly two fields, \<open>urls\<close>, the array of the \<open>[shortCode, record]\<close>
  pairs of the whole new map, and \<open>lastUpdated\<close>, a time stamp; if \<open>setItem\<close> throws,
  the exception is swallowed and the store keeps what it held. The field is named
  \<open>urls\<close>, not \<open>links\<close>.
\<close>

theorem mutation_persists_under_urls:
  assumes "step x s = Some s'" "urls s' \<noteq> urls s"
  shows "(opStoreAccepts x \<longrightarrow>
            (\<exists>t. storage s' = Some (JObj [(''urls'', JArr (map entryJson (urls s'))),
                                          (''lastUpdated'', JIso t)])))
       \<and> (\<not> opStoreAccepts x \<longrightarrow> storage s' = storage s)"
  using step_storage[OF assms] by (auto simp: storageData_def)

text \<open>Resolving \<open>abc\<close> at time 1000 sets its flag, which changes the map; once with a
  store that accepts the write, once with a store that refuses it.\<close>

theorem mutation_persists_under_urls_witness:
  "urls (snd (getShortenedUrl (exampleEnv 1000) ''abc'' exampleService)) \<noteq> urls exampleService
   \<and> (\<exists>t. storage (snd (getShortenedUrl (exampleEnv 1000) ''abc'' exampleService))
          = Some (JObj [(''urls'', JArr (map entryJson
                   (urls (snd (getShortenedUrl (exampleEnv 1000) ''abc'' exampleService))))),
                 (''lastUpdated'', JIso t)]))
   \<and> urls (snd (getShortenedUrl (fullStoreEnv 1000) ''abc'' exampleService)) \<noteq> urls exampleService
   \<and> storage (snd (getShortenedUrl (fullStoreEnv 1000) ''abc'' exampleService))
       = storage exampleService"
proof -
  have h1: "step (Resolve (exampleEnv 1000) ''abc'') exampleService
     = Some (snd (getShortenedUrl (exampleEnv 1000) ''abc'' exampleService))" by simp
  have h2: "urls (snd (getShortenedUrl (exampleEnv 1000) ''abc'' exampleService)) \<noteq> urls exampleService"
    by code_simp
  have a1: "opStoreAccepts (Resolve (exampleEnv 1000) ''abc'')" by (simp add: exampleEnv_def)
  have g1: "step (Resolve (fullStoreEnv 1000) ''abc'') exampleService
     = Some (snd (getShortenedUrl (fullStoreEnv 1000) ''abc'' exampleService))" by simp
  have g2: "urls (snd (getShortenedUrl (fullStoreEnv 1000) ''abc'' exampleService)) \<noteq> urls exampleService"
    by code_simp
  have a2: "\<not> opStoreAccepts (Resolve (fullStoreEnv 1000) ''abc'')"
    by (simp add: fullStoreEnv_def)
  from mutation_persists_under_urls[OF h1 h2] mutation_persists_under_urls[OF g1 g2] a1 a2 h2 g2
  show ?thesis by blast
qed

text \<open>What the store holds after one create on the empty service: the pairs are under
  \<open>urls\<close>, and there is no field \<open>links\<close>.\<close>

theorem storage_field_links_counterexample:
  "map_option storage
     (step (Create (exampleEnv 1000) (exampleRequest None (Some ''abc''))) emptyService)
   = Some (Some (JObj
       [(''urls'',
         JArr [JArr [JStr ''abc'',
           JObj [(''id'', JStr ''url_1_abc''),
                 (''originalUrl'', JStr ''https://example.com/x''),
                 (''shortCode'', JStr ''abc''),
                 (''customShortCode'', JStr ''abc''),
                 (''createdAt'', JIso 1000),
                 (''expiresAt'', JIso 1801000),
                 (''validityMinutes'', JNum 30),
                 (''clicks'', JArr []),
                 (''isExpired'', JBool False)]]]),
        (''lastUpdated'', JIso 1000)]))"
  by code_simp

section \<open>Custom short codes\<close>

text \<open>
  Claim C4, as the code has it. For a create request whose URL and validity pass their
  checks and which carries a \<open>customShortCode\<close> \<open>c\<close>: \<open>c\<close> is well-formed exactly
  when it has 3 to 20 characters, all alphanumeric; a non-empty \<open>c\<close> that is not
  well-formed fails with \<open>InvalidShortCode\<close> and leaves the service as it was; a
  well-formed \<open>c\<close> that is a key of the map fails with \<open>DuplicateShortCode\<close>; a
  well-formed \<open>c\<close> that is not a key, with an expiry date that a \<open>Date\<close> can hold,
  gives a link stored under exactly \<open>c\<close>. An empty \<open>c\<close> is falsy in
  \<open>if (request.customShortCode)\<close>: the request is treated as one without a custom code
  and the code comes from the generator.
\<close>

theorem createShortenedUrl_custom_code:
  assumes "isValidUrl e (reqOriginalUrl request)"
    and "\<not> leqZero (orDefault (reqValidityMinutes request))"
    and "Number_isInteger (orDefault (reqValidityMinutes request))"
    and "reqCustomShortCode request = Some c"
  shows "(isValidShortCode c \<longleftrightarrow> 3 \<le> length c \<and> length c \<le> 20 \<and> list_all isAlnum c)
     \<and> (c \<noteq> [] \<and> \<not> isValidShortCode c \<longrightarrow>
          createShortenedUrl e request s = Some (Inl InvalidShortCode, s))
     \<and> (isValidShortCode c \<and> has (urls s) c \<longrightarrow>
          createShortenedUrl e request s = Some (Inl DuplicateShortCode, s))
     \<and> (isValidShortCode c \<and> \<not> has (urls s) c
          \<and> envNow e + integerOf (orDefault (reqValidityMinutes request)) * 60 * 1000 \<le> maxTimeValue \<longrightarrow>
          (\<exists>u s'. createShortenedUrl e request s = Some (Inr u, s') \<and> shortCode u = c
                   \<and> map_of (urls s') c = Some u))
     \<and> (c = [] \<longrightarrow>
          createShortenedUrl e request s =
            map_option
              (\<lambda>code. storeShortenedUrl e request (integerOf (orDefault (reqValidityMinutes request))) code s)
              (generateShortCode (urls s) (envRandomIndex e) 0))"
proof -
  have ne: "isValidShortCode c \<Longrightarrow> c \<noteq> []" by (auto simp: isValidShortCode_iff)
  have a: "c \<noteq> [] \<and> \<not> isValidShortCode c \<longrightarrow>
          createShortenedUrl e request s = Some (Inl InvalidShortCode, s)"
    using assms by (simp add: createShortenedUrl_def Let_def truthyString_def)
  have b: "isValidShortCode c \<and> has (urls s) c \<longrightarrow>
          createShortenedUrl e request s = Some (Inl DuplicateShortCode, s)"
    using assms ne by (auto simp: createShortenedUrl_def Let_def truthyString_def isShortCodeUnique_def)
  have c: "isValidShortCode c \<and> \<not> has (urls s) c
          \<and> envNow e + integerOf (orDefault (reqValidityMinutes request)) * 60 * 1000 \<le> maxTimeValue \<longrightarrow>
          (\<exists>u s'. createShortenedUrl e request s = Some (Inr u, s') \<and> shortCode u = c
                   \<and> map_of (urls s') c = Some u)"
  proof (intro impI, elim conjE)
    assume v: "isValidShortCode c" and f: "\<not> has (urls s) c"
      and r: "envNow e + integerOf (orDefault (reqValidityMinutes request)) * 60 * 1000 \<le> maxTimeValue"
    have "createShortenedUrl e request s
            = Some (storeShortenedUrl e request (integerOf (orDefault (reqValidityMinutes request))) c s)"
      using assms v f ne[OF v] by (simp add: createShortenedUrl_def Let_def truthyString_def isShortCodeUnique_def)
    with storeShortenedUrl_in_range[OF r, of request c s]
    show "\<exists>u s'. createShortenedUrl e request s = Some (Inr u, s') \<and> shortCode u = c
                   \<and> map_of (urls s') c = Some u"
      by auto
  qed
  have d: "c = [] \<longrightarrow>
          createShortenedUrl e request s =
            map_option
              (\<lambda>code. storeShortenedUrl e request (integerOf (orDefault (reqValidityMinutes request))) code s)
              (generateShortCode (urls s) (envRandomIndex e) 0)"
    using assms by (simp add: createShortenedUrl_def Let_def truthyString_def)
  from isValidShortCode_iff[of c] a b c d show ?thesis by blast
qed

theorem createShortenedUrl_custom_code_witness:
  "createShortenedUrl (exampleEnv 1000) (exampleRequest None (Some ''ab'')) emptyService
     = Some (Inl InvalidShortCode, emptyService)
   \<and> createShortenedUrl (exampleEnv 1000) (exampleRequest None (Some ''abc'')) exampleService
     = Some (Inl DuplicateShortCode, exampleService)
   \<and> (\<exists>u s'. createShortenedUrl (exampleEnv 1000) (exampleRequest None (Some ''abc'')) emptyService
         = Some (Inr u, s') \<and> shortCode u = ''abc'' \<and> map_of (urls s') ''abc'' = Some u)"
proof -
  have h2: "\<not> leqZero (orDefault (reqValidityMinutes (exampleRequest None c)))" for c
    by (simp add: exampleRequest_def orDefault_def DEFAULT_VALIDITY_MINUTES_def leqZero_def)
  have h3: "Number_isInteger (orDefault (reqValidityMinutes (exampleRequest None c)))" for c
    by (simp add: exampleRequest_def orDefault_def DEFAULT_VALIDITY_MINUTES_def Number_isInteger_def)
  have h4: "reqCustomShortCode (exampleRequest None (Some c)) = Some c" for c
    by (simp add: exampleRequest_def)
  have v1: "\<not> isValidShortCode ''ab''" by (simp add: isValidShortCode_def)
  have v2: "isValidShortCode ''abc''"
    by (simp add: isValidShortCode_def alphanumericRegex_def isAlnum_def)
  have d: "has (urls exampleService) ''abc''" by (simp add: has_def exampleService_def)
  have f: "\<not> has (urls emptyService) ''abc''" by (simp add: has_def emptyService_def)
  have r: "envNow (exampleEnv 1000)
             + integerOf (orDefault (reqValidityMinutes (exampleRequest None (Some ''abc'')))) * 60 * 1000
           \<le> maxTimeValue"
    by (simp add: exampleEnv_def exampleRequest_def orDefault_def DEFAULT_VALIDITY_MINUTES_def
        integerOf_def maxTimeValue_def)
  from createShortenedUrl_custom_code[where e = "exampleEnv 1000" and request = "exampleRequest None (Some ''ab'')" and c = "''ab''" and s = emptyService, OF example_valid_url h2 h3 h4] v1
  have 1: "createShortenedUrl (exampleEnv 1000) (exampleRequest None (Some ''ab'')) emptyService
     = Some (Inl InvalidShortCode, emptyService)" by simp
  from createShortenedUrl_custom_code[where e = "exampleEnv 1000" and request = "exampleRequest None (Some ''abc'')" and c = "''abc''" and s = exampleService, OF example_valid_url h2 h3 h4] v2 d
  have 2: "createShortenedUrl (exampleEnv 1000) (exampleRequest None (Some ''abc'')) exampleService
     = Some (Inl DuplicateShortCode, exampleService)" by blast
  from createShortenedUrl_custom_code[where e = "exampleEnv 1000" and request = "exampleRequest None (Some ''abc'')" and c = "''abc''" and s = emptyService, OF example_valid_url h2 h3 h4] v2 f r
  have 3: "\<exists>u s'. createShortenedUrl (exampleEnv 1000) (exampleRequest None (Some ''abc'')) emptyService
         = Some (Inr u, s') \<and> shortCode u = ''abc'' \<and> map_of (urls s') ''abc'' = Some u" by blast
  from 1 2 3 show ?thesis by blast
qed

text \<open>With the empty string as custom code, create does not fail: it stores a link
  under a generated code.\<close>

theorem createShortenedUrl_empty_custom_code_counterexample:
  "map_option fst
     (createShortenedUrl (exampleEnv 1000) (exampleRequest None (Some '''')) emptyService)
   = Some (Inr \<lparr>urlId = ''url_1_abc'', originalUrl = ''https://example.com/x'',
                shortCode = ''airAJS'', customShortCode = Some '''', createdAt = 1000,
                expiresAt = 1801000, validityMinutes = 30, clicks = [], isExpired = False\<rparr>)"
  by code_simp

section \<open>Resolving a link\<close>

text \<open>
  Claim C5, as the code has it. For a stored link whose flag is not set, resolved when
  \<open>expiresAt\<close> is strictly earlier than the clock (\<open>new Date(url.expiresAt) < now\<close>):
  \<open>getShortenedUrl\<close> returns the record with \<open>isExpired\<close> set, the map holds that
  record under the same key, in the same place, and every other key is untouched. The
  whole new map is written to the store if the store accepts the write; if \<open>setItem\<close>
  throws, the store keeps what it held. At the instant \<open>now = expiresAt\<close> nothing is
  flipped.
\<close>

theorem getShortenedUrl_flips_after_expiry:
  assumes "map_of (urls s) code = Some u" "expiresAt u < envNow e" "\<not> isExpired u"
  shows "\<exists>s'. getShortenedUrl e code s = (Some (u\<lparr>isExpired := True\<rparr>), s')
     \<and> map_of (urls s') code = Some (u\<lparr>isExpired := True\<rparr>)
     \<and> (\<forall>k. k \<noteq> code \<longrightarrow> map_of (urls s') k = map_of (urls s) k)
     \<and> map fst (urls s') = map fst (urls s)
     \<and> storage s' =
          (if envStoreAccepts e
           then Some (JObj [(''urls'', JArr (map entryJson (urls s'))),
                            (''lastUpdated'', JIso (envSaveTime e))])
           else storage s)"
  using assms
  by (simp add: getShortenedUrl_def Let_def saveToStorage_def storageData_def
      map_of_update_same map_of_update_other keys_update_present)

text \<open>Resolving \<open>abc\<close>, which expires at 500, at time 501.\<close>

theorem getShortenedUrl_flips_after_expiry_witness:
  "map_of (urls exampleService) ''abc'' = Some (exampleUrl ''abc'' 500 False)
   \<and> expiresAt (exampleUrl ''abc'' 500 False) < envNow (exampleEnv 501)
   \<and> \<not> isExpired (exampleUrl ''abc'' 500 False)
   \<and> fst (getShortenedUrl (exampleEnv 501) ''abc'' exampleService) = Some (exampleUrl ''abc'' 500 True)
   \<and> storage (snd (getShortenedUrl (exampleEnv 501) ''abc'' exampleService))
       = Some (JObj [(''urls'', JArr (map entryJson
                  [(''abc'', exampleUrl ''abc'' 500 True), (''xyz'', exampleUrl ''xyz'' 5000 False)])),
                (''lastUpdated'', JIso 501)])"
proof -
  have h1: "map_of (urls exampleService) ''abc'' = Some (exampleUrl ''abc'' 500 False)"
    by (simp add: exampleService_def)
  have h2: "expiresAt (exampleUrl ''abc'' 500 False) < envNow (exampleEnv 501)"
    by (simp add: exampleUrl_def exampleEnv_def)
  have h3: "\<not> isExpired (exampleUrl ''abc'' 500 False)" by (simp add: exampleUrl_def)
  have u: "(exampleUrl ''abc'' 500 False)\<lparr>isExpired := True\<rparr> = exampleUrl ''abc'' 500 True"
    by (simp add: exampleUrl_def)
  have k: "urls (snd (getShortenedUrl (exampleEnv 501) ''abc'' exampleService))
           = [(''abc'', exampleUrl ''abc'' 500 True), (''xyz'', exampleUrl ''xyz'' 5000 False)]"
    by code_simp
  have a: "envStoreAccepts (exampleEnv 501)" "envSaveTime (exampleEnv 501) = 501"
    by (simp_all add: exampleEnv_def)
  from getShortenedUrl_flips_after_expiry[OF h1 h2 h3] obtain s' where
    g: "getShortenedUrl (exampleEnv 501) ''abc'' exampleService
          = (Some ((exampleUrl ''abc'' 500 False)\<lparr>isExpired := True\<rparr>), s')"
    and st: "storage s' =
          (if envStoreAccepts (exampleEnv 501)
           then Some (JObj [(''urls'', JArr (map entryJson (urls s'))),
                            (''lastUpdated'', JIso (envSaveTime (exampleEnv 501)))])
           else storage exampleService)"
    by blast
  from g k have "urls s' = [(''abc'', exampleUrl ''abc'' 500 True), (''xyz'', exampleUrl ''xyz'' 5000 False)]"
    by simp
  with g st a u h1 h2 h3 show ?thesis by simp
qed

text \<open>Resolving \<open>abc\<close> at exactly its expiry time 500 returns the record with the
  flag still unset and leaves the service, and the store, as they were.\<close>

theorem getShortenedUrl_at_expiry_instant_counterexample:
  "getShortenedUrl (exampleEnv 500) ''abc'' exampleService
     = (Some (exampleUrl ''abc'' 500 False), exampleService)"
  by code_simp

section \<open>Recording clicks\<close>

text \<open>
  Claim C6. For every call of \<open>accessShortenedUrl\<close>: when it succeeds, the code was a
  key of the map, the original URL of its record is returned, the record under that key
  afterwards is the old one with exactly one click, carrying the given source, appended
  to \<open>clicks\<close> (so its length grows by exactly 1), and every other key is untouched;
  when it fails, the error is \<open>NotFound\<close> or \<open>Expired\<close> and the \<open>clicks\<close> of every
  record are as before.
\<close>

theorem accessShortenedUrl_clicks:
  "case accessShortenedUrl e code src s of
     (Inr url, s') \<Rightarrow>
       (\<exists>u c. map_of (urls s) code = Some u \<and> url = originalUrl u
          \<and> map_of (urls s') code = Some (u\<lparr>clicks := clicks u @ [c]\<rparr>)
          \<and> source c = src
          \<and> length (clicks (the (map_of (urls s') code))) = length (clicks u) + 1
          \<and> (\<forall>k. k \<noteq> code \<longrightarrow> map_of (urls s') k = map_of (urls s) k))
   | (Inl err, s') \<Rightarrow>
       (err = NotFound \<or> err = Expired)
       \<and> map (\<lambda>kv. (fst kv, clicks (snd kv))) (urls s')
         = map (\<lambda>kv. (fst kv, clicks (snd kv))) (urls s)"
proof -
  obtain r s1 where g: "getShortenedUrl e code s = (r, s1)" by (cases "getShortenedUrl e code s")
  have cl: "map (\<lambda>kv. (fst kv, clicks (snd kv))) (urls s1) = map (\<lambda>kv. (fst kv, clicks (snd kv))) (urls s)"
    using getShortenedUrl_clicks[of e code s] g by simp
  show ?thesis
  proof (cases r)
    case None
    with g cl show ?thesis by (simp add: accessShortenedUrl_def)
  next
    case (Some url)
    show ?thesis
    proof (cases "isExpired url")
      case True
      with g Some cl show ?thesis by (simp add: accessShortenedUrl_def)
    next
      case False
      from getShortenedUrl_cases[OF g] Some False
      have u: "map_of (urls s) code = Some url"
        and o: "\<forall>k. k \<noteq> code \<longrightarrow> map_of (urls s1) k = map_of (urls s) k"
        by auto
      define cd where "cd = \<lparr>timestamp = envClickTime e, source = src,
        location = getCoarseLocation e, userAgent = envUserAgent e,
        ipHash = Some (generateIpHash e)\<rparr>"
      have src: "source cd = src" by (simp add: cd_def)
      from g Some False
      have "accessShortenedUrl e code src s
              = (Inr (originalUrl url),
                 saveToStorage e (s1\<lparr>urls := AList.update code (url\<lparr>clicks := clicks url @ [cd]\<rparr>) (urls s1)\<rparr>))"
        by (simp add: accessShortenedUrl_def Let_def cd_def)
      with u o src show ?thesis
        by (auto simp: urls_saveToStorage map_of_update_same map_of_update_other
            intro!: exI[of _ cd])
    qed
  qed
qed

text \<open>At time 1000, access to \<open>xyz\<close> succeeds and access to \<open>abc\<close> fails.\<close>

theorem accessShortenedUrl_clicks_witness:
  "fst (accessShortenedUrl (exampleEnv 1000) ''xyz'' ''direct_link'' exampleService)
     = Inr ''https://example.com/x''
   \<and> length (clicks (the (map_of
        (urls (snd (accessShortenedUrl (exampleEnv 1000) ''xyz'' ''direct_link'' exampleService)))
        ''xyz''))) = 1
   \<and> fst (accessShortenedUrl (exampleEnv 1000) ''abc'' ''direct_link'' exampleService) = Inl Expired
   \<and> map (\<lambda>kv. (fst kv, clicks (snd kv)))
        (urls (snd (accessShortenedUrl (exampleEnv 1000) ''abc'' ''direct_link'' exampleService)))
     = [(''abc'', []), (''xyz'', [])]"
proof -
  obtain r s' where a: "accessShortenedUrl (exampleEnv 1000) ''xyz'' ''direct_link'' exampleService = (r, s')"
    by (cases "accessShortenedUrl (exampleEnv 1000) ''xyz'' ''direct_link'' exampleService")
  have "fst (accessShortenedUrl (exampleEnv 1000) ''xyz'' ''direct_link'' exampleService)
     = Inr ''https://example.com/x''" by code_simp
  with a have r: "r = Inr ''https://example.com/x''" by simp
  have m: "map_of (urls exampleService) ''xyz'' = Some (exampleUrl ''xyz'' 5000 False)"
    by (simp add: exampleService_def)
  from accessShortenedUrl_clicks[where e = "exampleEnv 1000" and code = "''xyz''" and src = "''direct_link''" and s = exampleService] a r m
  have 1: "length (clicks (the (map_of (urls s') ''xyz''))) = 1"
    by (auto simp: exampleUrl_def)
  obtain r2 s2 where b: "accessShortenedUrl (exampleEnv 1000) ''abc'' ''direct_link'' exampleService = (r2, s2)"
    by (cases "accessShortenedUrl (exampleEnv 1000) ''abc'' ''direct_link'' exampleService")
  have "fst (accessShortenedUrl (exampleEnv 1000) ''abc'' ''direct_link'' exampleService) = Inl Expired"
    by code_simp
  with b have r2: "r2 = Inl Expired" by simp
  from accessShortenedUrl_clicks[where e = "exampleEnv 1000" and code = "''abc''" and src = "''direct_link''" and s = exampleService] b r2
  have 2: "map (\<lambda>kv. (fst kv, clicks (snd kv))) (urls s2) = [(''abc'', []), (''xyz'', [])]"
    by (simp add: exampleService_def exampleUrl_def)
  from a b r r2 1 2 show ?thesis by simp
qed

section \<open>The expiry flag is never reset\<close>

text \<open>
  Claim C7. Take any sequence of operations (create, resolve, access, list, purge) that
  runs from a service in which the record under \<open>code\<close> has \<open>isExpired\<close> set. At every
  point of the run up to which \<open>code\<close> has stayed a key of the map, the record under
  \<open>code\<close> still has \<open>isExpired\<close> set.
\<close>

theorem isExpired_never_reset:
  assumes "exec ops s = Some ss" "map_of (urls s) code = Some u" "isExpired u"
    and "i < length ss" "\<forall>j\<le>i. has (urls (ss ! j)) code"
  shows "\<exists>u'. map_of (urls (ss ! i)) code = Some u' \<and> isExpired u'"
  using assms
proof (induction ops arbitrary: s ss u i)
  case Nil
  then show ?case by simp
next
  case (Cons x xs)
  from Cons.prems(1) obtain s' ss' where st: "step x s = Some s'" and ex: "exec xs s' = Some ss'"
    and ss: "ss = s' # ss'"
    by (auto split: option.splits)
  from Cons.prems(5) have "has (urls (ss ! 0)) code" by blast
  with ss have h0: "has (urls s') code" by simp
  with step_flag[OF st Cons.prems(2,3)] obtain u1 where u1: "map_of (urls s') code = Some u1" "isExpired u1"
    by (auto simp: has_def)
  show ?case
  proof (cases i)
    case 0
    with ss u1 show ?thesis by simp
  next
    case (Suc i')
    have a: "i' < length ss'" using Cons.prems(4) ss Suc by simp
    have b: "\<forall>j\<le>i'. has (urls (ss' ! j)) code"
    proof (intro allI impI)
      fix j assume "j \<le> i'"
      then have "Suc j \<le> i" using Suc by simp
      with Cons.prems(5) have "has (urls (ss ! Suc j)) code" by blast
      with ss show "has (urls (ss' ! j)) code" by simp
    qed
    from Cons.IH[OF ex u1 a b] ss Suc show ?thesis by simp
  qed
qed

text \<open>A run of four operations on the service in which \<open>abc\<close> is flagged; the create
  in it asks for the code \<open>abc\<close> again.\<close>

theorem isExpired_never_reset_witness:
  "exec exampleOps flaggedService \<noteq> None
   \<and> (\<exists>u'. map_of (urls (the (exec exampleOps flaggedService) ! 3)) ''abc'' = Some u' \<and> isExpired u')"
proof -
  have n: "exec exampleOps flaggedService \<noteq> None" by code_simp
  then have h1: "exec exampleOps flaggedService = Some (the (exec exampleOps flaggedService))" by simp
  have h2: "map_of (urls flaggedService) ''abc'' = Some (exampleUrl ''abc'' 500 True)"
    by (simp add: flaggedService_def)
  have h3: "isExpired (exampleUrl ''abc'' 500 True)" by (simp add: exampleUrl_def)
  have h4: "3 < length (the (exec exampleOps flaggedService))" by code_simp
  have p0: "has (urls (the (exec exampleOps flaggedService) ! 0)) ''abc''" by code_simp
  have p1: "has (urls (the (exec exampleOps flaggedService) ! 1)) ''abc''" by code_simp
  have p2: "has (urls (the (exec exampleOps flaggedService) ! 2)) ''abc''" by code_simp
  have p3: "has (urls (the (exec exampleOps flaggedService) ! 3)) ''abc''" by code_simp
  have h5: "\<forall>j\<le>3. has (urls (the (exec exampleOps flaggedService) ! j)) ''abc''"
  proof (intro allI impI)
    fix j :: nat assume "j \<le> 3"
    then have "j = 0 \<or> j = 1 \<or> j = 2 \<or> j = 3" by arith
    with p0 p1 p2 p3 show "has (urls (the (exec exampleOps flaggedService) ! j)) ''abc''" by auto
  qed
  from isExpired_never_reset[OF h1 h2 h3 h4 h5] n show ?thesis by blast
qed

section \<open>The code generator\<close>



section \<open>Saving and loading\<close>

text \<open>
  Claim C9. For every map (with unique keys, as a \<open>Map\<close> has them): the object that
  \<open>saveToStorage\<close> builds from the map is what a store that accepts the write holds
  afterwards, and a service that starts from a store holding that object loads
  exactly that map: the same keys in the same order, every field of every record, and
  every \<open>clicks\<close> sequence in its order.
\<close>

theorem save_then_load_roundtrip:
  assumes "distinct (map fst (urls s))"
  shows "(envStoreAccepts e \<longrightarrow> storage (saveToStorage e s) = Some (storageData e (urls s)))
       \<and> (storage s2 = Some (storageData e (urls s)) \<longrightarrow>
            map_option urls (loadFromStorage s2) = Some (urls s))"
proof -
  have "list_all isObjectJson (map entryJson (urls s))"
    by (simp add: list_all_iff isObjectJson_def entryJson_def)
  with assms show ?thesis
    by (simp add: loadFromStorage_def saveToStorage_def storageData_def falsyJson_def
        entries_roundtrip newMap_distinct)
qed

text \<open>Saving the example service at time 1000 and loading into an empty service.\<close>

theorem save_then_load_roundtrip_witness:
  "distinct (map fst (urls exampleService))
   \<and> map_option urls
       (loadFromStorage (emptyService\<lparr>storage := storage (saveToStorage (exampleEnv 1000) exampleService)\<rparr>))
     = Some (urls exampleService)"
proof -
  have h: "distinct (map fst (urls exampleService))" by (simp add: exampleService_def)
  have a: "envStoreAccepts (exampleEnv 1000)" by (simp add: exampleEnv_def)
  from save_then_load_roundtrip[OF h, of "exampleEnv 1000"] a
  have st: "storage (saveToStorage (exampleEnv 1000) exampleService)
              = Some (storageData (exampleEnv 1000) (urls exampleService))"
    by blast
  then have "storage (emptyService\<lparr>storage := storage (saveToStorage (exampleEnv 1000) exampleService)\<rparr>)
            = Some (storageData (exampleEnv 1000) (urls exampleService))" by simp
  with save_then_load_roundtrip[OF h, of "exampleEnv 1000"
      "emptyService\<lparr>storage := storage (saveToStorage (exampleEnv 1000) exampleService)\<rparr>"] h
  show ?thesis by blast
qed

section \<open>Top sources\<close>




end
